theory Spec2Isabelle
  imports Main "HOL-Library.Word"
begin

unbundle bit_operations_syntax

section \<open>JavaScript numbers and bitwise operators\<close>

text \<open>
  Every number the CPU core handles is an integer-valued JavaScript number; it is modelled
  as an \<^typ>\<open>int\<close>. The arithmetic operators \<^verbatim>\<open>+\<close> and \<^verbatim>\<open>-\<close> and the comparisons work on
  the number itself. The bitwise operators first convert each operand to a signed 32-bit
  integer (ToInt32) and give a signed 32-bit result; the shifts use the count modulo 32.
  \<^verbatim>\<open>%\<close> is the remainder of the truncating division: it takes the sign of the dividend
  (the CPU core only divides by the literals 2 and 8).
\<close>

definition to_int32 :: "int \<Rightarrow> int" where
  "to_int32 k = signed_take_bit 31 k"

definition js_and :: "int \<Rightarrow> int \<Rightarrow> int" where
  "js_and k l = to_int32 k AND to_int32 l"

definition js_or :: "int \<Rightarrow> int \<Rightarrow> int" where
  "js_or k l = to_int32 k OR to_int32 l"

definition js_not :: "int \<Rightarrow> int" where
  "js_not k = NOT (to_int32 k)"

definition js_shl :: "int \<Rightarrow> nat \<Rightarrow> int" where
  "js_shl k m = to_int32 (push_bit (m mod 32) (to_int32 k))"

definition js_shr :: "int \<Rightarrow> nat \<Rightarrow> int" where
  "js_shr k m = drop_bit (m mod 32) (to_int32 k)"

definition js_rem :: "int \<Rightarrow> int \<Rightarrow> int" where
  "js_rem k l = sgn k * (\<bar>k\<bar> mod \<bar>l\<bar>)"

section \<open>The CPU state\<close>

text \<open>
  A value thrown by JavaScript code, as the string it converts to when \<^verbatim>\<open>tick\<close>
  prepends its own message. A function that can throw returns \<open>error + 'a\<close>; the state a
  throwing call leaves behind is not modelled.
\<close>

datatype error = Throw string

text \<open>
  Modelled from the spec: \<^verbatim>\<open>constants.js\<close>, which defines \<^verbatim>\<open>INTERRUPTS\<close>, is not among
  the sources. The pending interrupt is an optional tag, NMI or IRQ; only NMI is wired,
  IRQ is reserved. \<^verbatim>\<open>null\<close> is \<open>None\<close>.
\<close>

datatype interrupt_tag = NMI | IRQ

text \<open>
  The fields of \<^verbatim>\<open>class CPU\<close>. The one-letter fields keep their letter behind a prefix:
  \<^verbatim>\<open>b\<close> is \<open>branch_b\<close>, the registers are \<open>reg_a\<close>, \<open>reg_x\<close>, \<open>reg_y\<close> and the flags
  \<open>flag_c\<close>, \<open>flag_z\<close>, \<open>flag_i\<close>, \<open>flag_d\<close>, \<open>flag_v\<close>, \<open>flag_n\<close>.

  \<open>ram\<close> is the backing store of \<^verbatim>\<open>this.memory\<close>: 2048 cells of a byte each, indexed
  from 0. \<open>peers\<close> is the state of the hardware connected to the CPU (PPU, APU,
  controller, cartridge mapper), whose code is not among the sources: it is a type
  parameter. \<open>console\<close> collects the lines written by \<^verbatim>\<open>console.log\<close>.
\<close>

record 'p cpu =
  ram :: "int \<Rightarrow> 8 word"
  peers :: 'p
  console :: "string list"
  cycles :: int
  branch_b :: int
  pc :: int
  sp :: int
  reg_a :: int
  reg_x :: int
  reg_y :: int
  flag_c :: int
  flag_z :: int
  flag_i :: int
  flag_d :: int
  flag_v :: int
  flag_n :: int
  interrupt :: "interrupt_tag option"
  stallCounter :: int

text \<open>
  The code the CPU calls and that is not among the sources, taken as parameters: the
  \<^verbatim>\<open>read8\<close> and \<^verbatim>\<open>write8\<close> methods of the four peers, and the tables
  \<^verbatim>\<open>instructions\<close>, \<^verbatim>\<open>modes\<close> and \<^verbatim>\<open>opcodes\<close>. A peer's read returns a value and
  changes the peers only. A write to the PPU takes the whole machine, since the OAM DMA
  behind \<^verbatim>\<open>$4014\<close> reads CPU memory and calls \<^verbatim>\<open>stall\<close>. A peer that was never connected
  (\<^verbatim>\<open>null\<close>) is a peer whose methods all throw. A mode and an opcode are called with the
  CPU itself and may change all of it.
\<close>

record ('p, 'op, 'mode, 'ad) hw =
  ppu_read8 :: "int \<Rightarrow> 'p \<Rightarrow> error + int \<times> 'p"
  apu_read8 :: "'p \<Rightarrow> error + int \<times> 'p"
  controller_read8 :: "'p \<Rightarrow> error + int \<times> 'p"
  mapper_read8 :: "int \<Rightarrow> 'p \<Rightarrow> error + int \<times> 'p"
  ppu_write8 :: "int \<Rightarrow> int \<Rightarrow> 'p cpu \<Rightarrow> error + 'p cpu"
  apu_write8 :: "int \<Rightarrow> int \<Rightarrow> 'p \<Rightarrow> error + 'p"
  controller_write8 :: "int \<Rightarrow> 'p \<Rightarrow> error + 'p"
  mapper_write8 :: "int \<Rightarrow> int \<Rightarrow> 'p \<Rightarrow> error + 'p"
  instructions :: "int \<Rightarrow> ('op \<times> 'mode \<times> int \<times> int) option"
  modes :: "'mode \<Rightarrow> 'p cpu \<Rightarrow> error + 'ad \<times> 'p cpu"
  opcodes :: "'op \<Rightarrow> 'ad \<Rightarrow> 'p cpu \<Rightarrow> error + 'p cpu"

section \<open>CPU RAM\<close>

text \<open>
  Modelled from the spec: \<^verbatim>\<open>CPUMemory.js\<close> is not among the sources. The CPU RAM exposes
  \<^verbatim>\<open>read8(addr)\<close> and \<^verbatim>\<open>write8(addr, v)\<close> over a fixed 2 KiB backing store, with the address
  taken modulo 2048, and a 256-byte stack view: \<^verbatim>\<open>stack[i]\<close> is the cell at \<^verbatim>\<open>$0100 + i\<close>.
  The cells are bytes, so a store keeps the value modulo 256; a store through the view at
  an index outside 0..255 changes nothing, and a load there gives no byte (0 here; the
  CPU only loads at an index it has masked with \<^verbatim>\<open>$FF\<close>).
\<close>

definition memory_read8 :: "int \<Rightarrow> 'p cpu \<Rightarrow> int" where
  "memory_read8 addr s = uint (ram s (addr mod 2048))"

definition memory_write8 :: "int \<Rightarrow> int \<Rightarrow> 'p cpu \<Rightarrow> 'p cpu" where
  "memory_write8 addr val s = s\<lparr>ram := (ram s)(addr mod 2048 := word_of_int val)\<rparr>"

definition memory_stack_get :: "int \<Rightarrow> 'p cpu \<Rightarrow> int" where
  "memory_stack_get idx s = (if 0 \<le> idx \<and> idx < 256 then uint (ram s (256 + idx)) else 0)"

definition memory_stack_set :: "int \<Rightarrow> int \<Rightarrow> 'p cpu \<Rightarrow> 'p cpu" where
  "memory_stack_set idx val s =
     (if 0 \<le> idx \<and> idx < 256 then s\<lparr>ram := (ram s)(256 + idx := word_of_int val)\<rparr> else s)"

section \<open>The CPU core\<close>

subsection \<open>DMA stall\<close>

definition stall :: "'p cpu \<Rightarrow> 'p cpu" where
  "stall s =
     (if js_rem (cycles s) 2 = 1 then s\<lparr>stallCounter := stallCounter s + 514\<rparr>
      else s\<lparr>stallCounter := stallCounter s + 513\<rparr>)"

subsection \<open>Flags\<close>

definition getFlags :: "'p cpu \<Rightarrow> int" where
  "getFlags s =
     (let flags = 0;
          flags = js_or flags (js_shl (flag_c s) 0);
          flags = js_or flags (js_shl (flag_z s) 1);
          flags = js_or flags (js_shl (flag_i s) 2);
          flags = js_or flags (js_shl (flag_d s) 3);
          flags = js_or flags (js_shl 0 4);
          flags = js_or flags (js_shl 1 5);
          flags = js_or flags (js_shl (flag_v s) 6);
          flags = js_or flags (js_shl (flag_n s) 7)
      in flags)"

definition setFlags :: "int \<Rightarrow> 'p cpu \<Rightarrow> 'p cpu" where
  "setFlags val s =
     s\<lparr>flag_c := js_and (js_shr val 0) 1,
       flag_z := js_and (js_shr val 1) 1,
       flag_i := js_and (js_shr val 2) 1,
       flag_d := js_and (js_shr val 3) 1,
       flag_v := js_and (js_shr val 6) 1,
       flag_n := js_and (js_shr val 7) 1\<rparr>"

subsection \<open>Stack\<close>

definition stackPush8 :: "int \<Rightarrow> 'p cpu \<Rightarrow> 'p cpu" where
  "stackPush8 val s =
     (let s1 = memory_stack_set (sp s) val s
      in s1\<lparr>sp := js_and (sp s1 - 1) 255\<rparr>)"

definition stackPush16 :: "int \<Rightarrow> 'p cpu \<Rightarrow> 'p cpu" where
  "stackPush16 val s = stackPush8 (js_and val 255) (stackPush8 (js_shr val 8) s)"

definition stackPull8 :: "'p cpu \<Rightarrow> int \<times> 'p cpu" where
  "stackPull8 s =
     (let s1 = s\<lparr>sp := js_and (sp s + 1) 255\<rparr>
      in (memory_stack_get (sp s1) s1, s1))"

definition stackPull16 :: "'p cpu \<Rightarrow> int \<times> 'p cpu" where
  "stackPull16 s =
     (let (lo, s1) = stackPull8 s;
          (hi, s2) = stackPull8 s1
      in (js_or lo (js_shl hi 8), s2))"

subsection \<open>Bus reads and writes\<close>

text \<open>
  A call of a peer's method from the CPU: the method runs on the peers, the rest of the
  CPU stays as it is, and what the method throws is thrown on.
\<close>

definition peer_read :: "('p \<Rightarrow> error + int \<times> 'p) \<Rightarrow> 'p cpu \<Rightarrow> error + int \<times> 'p cpu" where
  "peer_read f s =
     (case f (peers s) of
        Inl e \<Rightarrow> Inl e
      | Inr (val, p) \<Rightarrow> Inr (val, s\<lparr>peers := p\<rparr>))"

definition peer_write :: "('p \<Rightarrow> error + 'p) \<Rightarrow> 'p cpu \<Rightarrow> error + 'p cpu" where
  "peer_write f s =
     (case f (peers s) of
        Inl e \<Rightarrow> Inl e
      | Inr p \<Rightarrow> Inr (s\<lparr>peers := p\<rparr>))"

definition read8 :: "('p, 'op, 'mode, 'ad) hw \<Rightarrow> int \<Rightarrow> 'p cpu \<Rightarrow> error + int \<times> 'p cpu" where
  "read8 h addr s =
     (if addr < 8192 then Inr (memory_read8 addr s, s)
      else if addr < 16384 then peer_read (ppu_read8 h (8192 + js_rem addr 8)) s
      else if addr = 16404 then peer_read (ppu_read8 h addr) s
      else if addr = 16405 then peer_read (apu_read8 h) s
      else if addr = 16406 then peer_read (controller_read8 h) s
      else if addr = 16407 then Inr (0, s)
      else if addr < 24576 then Inr (0, s\<lparr>console := console s @ [''I/O REGISTERS'']\<rparr>)
      else peer_read (mapper_read8 h addr) s)"

definition read16 :: "('p, 'op, 'mode, 'ad) hw \<Rightarrow> int \<Rightarrow> 'p cpu \<Rightarrow> error + int \<times> 'p cpu" where
  "read16 h addr s =
     (case read8 h (addr + 1) s of
        Inl e \<Rightarrow> Inl e
      | Inr (hi, s1) \<Rightarrow>
          (case read8 h addr s1 of
             Inl e \<Rightarrow> Inl e
           | Inr (lo, s2) \<Rightarrow> Inr (js_or (js_shl hi 8) lo, s2)))"

definition read16indirect ::
  "('p, 'op, 'mode, 'ad) hw \<Rightarrow> int \<Rightarrow> 'p cpu \<Rightarrow> error + int \<times> 'p cpu" where
  "read16indirect h addr s =
     (let addr2 = js_or (js_and addr 65280) (js_and (js_and addr 255 + 1) 255)
      in case read8 h addr s of
           Inl e \<Rightarrow> Inl e
         | Inr (lo, s1) \<Rightarrow>
             (case read8 h addr2 s1 of
                Inl e \<Rightarrow> Inl e
              | Inr (hi, s2) \<Rightarrow> Inr (js_or (js_shl hi 8) lo, s2)))"

definition write8 :: "('p, 'op, 'mode, 'ad) hw \<Rightarrow> int \<Rightarrow> int \<Rightarrow> 'p cpu \<Rightarrow> error + 'p cpu" where
  "write8 h addr val s =
     (if addr < 8192 then Inr (memory_write8 addr val s)
      else if addr < 16384 then ppu_write8 h (8192 + js_rem addr 8) val s
      else if addr = 16404 then ppu_write8 h 16404 val s
      else if addr = 16405 then peer_write (apu_write8 h addr val) s
      else if addr = 16406 then peer_write (controller_write8 h val) s
      else if addr = 16407 then Inr s
      else if addr \<ge> 24576 then peer_write (mapper_write8 h addr val) s
      else if addr < 24576 then Inr s
      else Inr s)"

subsection \<open>Reset, interrupts and tick\<close>

definition reset :: "('p, 'op, 'mode, 'ad) hw \<Rightarrow> 'p cpu \<Rightarrow> error + 'p cpu" where
  "reset h s =
     (let s1 = s\<lparr>cycles := 0, reg_a := 0, reg_x := 0, reg_y := 0,
                interrupt := None, stallCounter := 0\<rparr>
      in case read16 h 65532 s1 of
           Inl e \<Rightarrow> Inl e
         | Inr (val, s2) \<Rightarrow> Inr (setFlags 36 (s2\<lparr>pc := val, sp := 253\<rparr>)))"

definition triggerNMI :: "'p cpu \<Rightarrow> 'p cpu" where
  "triggerNMI s = s\<lparr>interrupt := Some NMI\<rparr>"

text \<open>
  \<^verbatim>\<open>tick\<close> returns the number of cycles it reports to the scheduler, with the new state.
  A missing entry of the instruction table makes the destructuring assignment throw.
\<close>

definition tick :: "('p, 'op, 'mode, 'ad) hw \<Rightarrow> 'p cpu \<Rightarrow> error + int \<times> 'p cpu" where
  "tick h s =
     (let cycles0 = cycles s;
          s = s\<lparr>branch_b := 0\<rparr>
      in if stallCounter s > 0 then Inr (0, s\<lparr>stallCounter := stallCounter s - 1\<rparr>)
         else if interrupt s \<noteq> None then
           (case interrupt s of
              Some NMI \<Rightarrow>
                (let s = stackPush16 (pc s) s;
                     s = stackPush8 (js_and (getFlags s) (js_not 16)) s
                 in case read16 h 65530 s of
                      Inl e \<Rightarrow> Inl e
                    | Inr (val, s) \<Rightarrow>
                        Inr (7, s\<lparr>pc := val, flag_i := 1, cycles := cycles s + 7,
                                  interrupt := None\<rparr>))
            | _ \<Rightarrow> Inr (7, s\<lparr>interrupt := None\<rparr>))
         else
           (case read8 h (pc s) s of
              Inl (Throw err) \<Rightarrow> Inl (Throw (''Could not read next instruction: '' @ err))
            | Inr (instrCode, s) \<Rightarrow>
                (case instructions h instrCode of
                   None \<Rightarrow> Inl (Throw ''TypeError'')
                 | Some (opCode, mode, sz, cyc) \<Rightarrow>
                     (case modes h mode s of
                        Inl e \<Rightarrow> Inl e
                      | Inr (addr, s) \<Rightarrow>
                          (let s = s\<lparr>pc := pc s + sz, cycles := cycles s + cyc\<rparr>
                           in case opcodes h opCode addr s of
                                Inl (Throw err) \<Rightarrow>
                                  Inl (Throw (''Failed to process opcode: '' @ err))
                              | Inr s \<Rightarrow> Inr (cycles s - cycles0, s))))))"

section \<open>A CPU to run the scenarios on\<close>

text \<open>
  The state the constructor of \<^verbatim>\<open>class CPU\<close> builds, over peers \<open>p\<close>: every counter,
  register and flag 0, no pending interrupt, and RAM cleared.
\<close>

definition new_CPU :: "'p \<Rightarrow> 'p cpu" where
  "new_CPU p =
     \<lparr>ram = (\<lambda>_. 0), peers = p, console = [], cycles = 0, branch_b = 0, pc = 0, sp = 0,
      reg_a = 0, reg_x = 0, reg_y = 0, flag_c = 0, flag_z = 0, flag_i = 0, flag_d = 0,
      flag_v = 0, flag_n = 0, interrupt = None, stallCounter = 0\<rparr>"

text \<open>
  A synthetic cartridge with stateless peers: the mapper returns \<^verbatim>\<open>$34\<close> at \<^verbatim>\<open>$FFFC\<close> and
  \<^verbatim>\<open>$12\<close> at \<^verbatim>\<open>$FFFD\<close> (the reset vector \<^verbatim>\<open>$1234\<close>), \<^verbatim>\<open>$00\<close> at \<^verbatim>\<open>$FFFA\<close> and \<^verbatim>\<open>$90\<close> at
  \<^verbatim>\<open>$FFFB\<close> (the NMI vector \<^verbatim>\<open>$9000\<close>) and \<^verbatim>\<open>$EA\<close> elsewhere; the other peers read 0
  and swallow writes; every opcode byte decodes to a no-op of size 1 and 2 cycles.
\<close>

definition rom_hw :: "(unit, unit, unit, unit) hw" where
  "rom_hw =
     \<lparr>ppu_read8 = (\<lambda>addr p. Inr (0, p)),
      apu_read8 = (\<lambda>p. Inr (0, p)),
      controller_read8 = (\<lambda>p. Inr (0, p)),
      mapper_read8 = (\<lambda>addr p.
        Inr (if addr = 65532 then 52 else if addr = 65533 then 18
             else if addr = 65530 then 0 else if addr = 65531 then 144 else 234, p)),
      ppu_write8 = (\<lambda>addr val s. Inr s),
      apu_write8 = (\<lambda>addr val p. Inr p),
      controller_write8 = (\<lambda>val p. Inr p),
      mapper_write8 = (\<lambda>addr val p. Inr p),
      instructions = (\<lambda>code. Some ((), (), 1, 2)),
      modes = (\<lambda>mode s. Inr ((), s)),
      opcodes = (\<lambda>opCode addr s. Inr s)\<rparr>"

text \<open>
  The CPU of the NMI scenario: \<open>pc = $8000\<close>, \<open>sp = $FD\<close>, flags \<^verbatim>\<open>$A4\<close> (N, U and I), and
  an NMI pending.
\<close>

definition cpu_at_nmi :: "unit cpu" where
  "cpu_at_nmi = (new_CPU ())\<lparr>pc := 32768, sp := 253, flag_i := 1, flag_n := 1,
     interrupt := Some NMI\<rparr>"

section \<open>Facts about the JavaScript operators\<close>

lemma to_int32_id: "- (2 ^ 31) \<le> k \<Longrightarrow> k < 2 ^ 31 \<Longrightarrow> to_int32 k = k"
  unfolding to_int32_def by (simp add: signed_take_bit_int_eq_self)

lemma to_int32_and_mask: "m \<le> 32 \<Longrightarrow> to_int32 k AND mask m = k mod 2 ^ m"
proof -
  assume "m \<le> 32"
  then have "take_bit m (signed_take_bit 31 k) = take_bit m k"
    by (simp add: take_bit_signed_take_bit)
  then show ?thesis
    unfolding to_int32_def by (simp add: take_bit_eq_mask [symmetric] take_bit_eq_mod)
qed

lemma js_and_255: "js_and k 255 = k mod 256"
proof -
  have "(255::int) = mask 8" by (simp add: mask_eq_exp_minus_1)
  moreover have "to_int32 (mask 8) = mask 8" by (simp add: to_int32_id mask_eq_exp_minus_1)
  ultimately show ?thesis using to_int32_and_mask [of 8 k] by (simp add: js_and_def)
qed

lemma js_and_shr_1: "m < 32 \<Longrightarrow> js_and (js_shr k m) 1 = of_bool (bit k m)"
proof -
  assume m: "m < 32"
  have a: "to_int32 1 = 1" by (simp add: to_int32_def)
  have "js_and (js_shr k m) 1 = to_int32 (drop_bit m (to_int32 k)) AND 1"
    using m by (simp add: js_and_def js_shr_def a)
  also have "\<dots> = of_bool (bit k m)"
    unfolding to_int32_def using m
    by (auto simp add: and_one_eq mod_2_eq_odd bit_simps simp flip: bit_0)
  finally show ?thesis .
qed

lemma js_rem_2: "0 \<le> k \<Longrightarrow> js_rem k 2 = k mod 2"
  by (cases "k = 0") (simp_all add: js_rem_def)

lemma bit_byte: "0 \<le> (k::int) \<Longrightarrow> k < 256 \<Longrightarrow> bit k m \<Longrightarrow> m < 8"
proof -
  assume "0 \<le> k" "k < 256" "bit k m"
  then have "bit (take_bit 8 k) m" by (simp add: take_bit_int_eq_self)
  then show "m < 8" by (simp only: bit_take_bit_iff)
qed

lemma bit_207: "bit (207::int) m \<longleftrightarrow> m \<in> {0,1,2,3,6,7}"
proof -
  have "(207::int) = 2 ^ 0 OR 2 ^ 1 OR 2 ^ 2 OR 2 ^ 3 OR 2 ^ 6 OR 2 ^ 7" by simp
  then show ?thesis by (simp only: bit_or_iff bit_exp_iff) auto
qed

lemma bit_32: "bit (32::int) m \<longleftrightarrow> m = 5"
proof -
  have "(32::int) = 2 ^ 5" by simp
  then show ?thesis by (simp only: bit_exp_iff) auto
qed

lemma bit_pow2_numerals:
  "bit (2::int) m \<longleftrightarrow> m = 1"
  "bit (4::int) m \<longleftrightarrow> m = 2"
  "bit (8::int) m \<longleftrightarrow> m = 3"
  "bit (64::int) m \<longleftrightarrow> m = 6"
  "bit (128::int) m \<longleftrightarrow> m = 7"
  using bit_exp_iff [of 1 m, where ?'a = int] bit_exp_iff [of 2 m, where ?'a = int]
    bit_exp_iff [of 3 m, where ?'a = int] bit_exp_iff [of 6 m, where ?'a = int]
    bit_exp_iff [of 7 m, where ?'a = int]
  by auto

lemma js_or_id:
  "- 2147483648 \<le> k \<Longrightarrow> k < 2147483648 \<Longrightarrow> - 2147483648 \<le> l \<Longrightarrow> l < 2147483648
    \<Longrightarrow> js_or k l = k OR l"
  by (simp add: js_or_def to_int32_id)

lemma js_and_id:
  "- 2147483648 \<le> k \<Longrightarrow> k < 2147483648 \<Longrightarrow> - 2147483648 \<le> l \<Longrightarrow> l < 2147483648
    \<Longrightarrow> js_and k l = k AND l"
  by (simp add: js_and_def to_int32_id)

lemma and_255: "(k::int) AND 255 = k mod 256"
proof -
  have "k AND mask 8 = k mod 2 ^ 8"
    by (simp only: take_bit_eq_mask [symmetric] take_bit_eq_mod)
  moreover have "(mask 8 :: int) = 255" by (simp add: mask_eq_exp_minus_1)
  ultimately show ?thesis by simp
qed

lemma and_65280: "(k::int) AND 65280 = 256 * ((k div 256) mod 256)"
proof -
  have "(65280::int) = mask (8 + 8) AND NOT (mask 8)"
    by (simp add: mask_eq_exp_minus_1 not_int_def)
  then have "k AND 65280 = push_bit 8 (take_bit 8 (drop_bit 8 k))"
    by (simp only: slice_eq_mask and.assoc)
  then show ?thesis
    by (simp add: push_bit_eq_mult take_bit_eq_mod drop_bit_eq_div)
qed

lemma js_shr_8: "0 \<le> k \<Longrightarrow> k \<le> 65535 \<Longrightarrow> js_shr k 8 = k div 256"
  by (simp add: js_shr_def to_int32_id drop_bit_eq_div)

lemma js_shl_8: "0 \<le> k \<Longrightarrow> k \<le> 255 \<Longrightarrow> js_shl k 8 = 256 * k"
  by (simp add: js_shl_def to_int32_id push_bit_eq_mult)

lemma lo_plus_hi: "(k::int) mod 256 OR 256 * (k div 256) = k"
proof -
  have "take_bit 8 k + push_bit 8 (drop_bit 8 k) = take_bit 8 k OR push_bit 8 (drop_bit 8 k)"
    by (rule disjunctive_add) (auto simp add: bit_take_bit_iff bit_push_bit_iff)
  moreover have "push_bit 8 (drop_bit 8 k) + take_bit 8 k = k" by (rule bits_ident)
  ultimately have "take_bit 8 k OR push_bit 8 (drop_bit 8 k) = k" by simp
  then show ?thesis by (simp add: take_bit_eq_mod push_bit_eq_mult drop_bit_eq_div mult.commute)
qed

lemma js_or_lo_hi:
  assumes "0 \<le> k" "k \<le> 65535"
  shows "js_or (k mod 256) (js_shl (k div 256) 8) = k"
proof -
  have d: "0 \<le> k div 256" "k div 256 \<le> 255" using assms by simp_all
  have m: "0 \<le> k mod 256" "k mod 256 < 256" by simp_all
  have "js_or (k mod 256) (256 * (k div 256)) = k mod 256 OR 256 * (k div 256)"
    by (rule js_or_id) (use d m in linarith)+
  then show ?thesis by (simp add: js_shl_8 [OF d] lo_plus_hi)
qed

lemma uint_byte: "0 \<le> k \<Longrightarrow> k \<le> 255 \<Longrightarrow> uint (word_of_int k :: 8 word) = k"
  by (simp add: uint_word_of_int)

lemma sp_down:
  assumes "0 \<le> (k::int)" "k \<le> 255"
  shows "(k - 1) mod 256 = (if k = 0 then 255 else k - 1)"
    "(k - 2) mod 256 = (if k = 0 then 254 else if k = 1 then 255 else k - 2)"
    "(k - 3) mod 256 = (if k = 0 then 253 else if k = 1 then 254 else if k = 2 then 255 else k - 3)"
proof -
  have a: "\<And>j::int. 0 \<le> j \<Longrightarrow> j < 256 \<Longrightarrow> j mod 256 = j" by simp
  show "(k - 1) mod 256 = (if k = 0 then 255 else k - 1)"
    using assms a [of "k - 1"] by auto
  show "(k - 2) mod 256 = (if k = 0 then 254 else if k = 1 then 255 else k - 2)"
    using assms a [of "k - 2"] by auto
  show "(k - 3) mod 256 = (if k = 0 then 253 else if k = 1 then 254 else if k = 2 then 255 else k - 3)"
    using assms a [of "k - 3"] by auto
qed

section \<open>Flags\<close>

lemma getFlags_or:
  assumes "flag_c s \<in> {0,1}" "flag_z s \<in> {0,1}" "flag_i s \<in> {0,1}" "flag_d s \<in> {0,1}"
    "flag_v s \<in> {0,1}" "flag_n s \<in> {0,1}"
  shows "getFlags s = flag_c s OR push_bit 1 (flag_z s) OR push_bit 2 (flag_i s)
    OR push_bit 3 (flag_d s) OR 32 OR push_bit 6 (flag_v s) OR push_bit 7 (flag_n s)"
  using assms unfolding getFlags_def Let_def js_or_def js_shl_def to_int32_def
  by auto

lemma setFlags_fields:
  "flag_c (setFlags k s) = of_bool (bit k 0)"
  "flag_z (setFlags k s) = of_bool (bit k 1)"
  "flag_i (setFlags k s) = of_bool (bit k 2)"
  "flag_d (setFlags k s) = of_bool (bit k 3)"
  "flag_v (setFlags k s) = of_bool (bit k 6)"
  "flag_n (setFlags k s) = of_bool (bit k 7)"
  by (simp_all add: setFlags_def js_and_shr_1)

lemma packed_bits:
  assumes "0 \<le> (k::int)" "k \<le> 255"
  shows "of_bool (bit k 0) OR push_bit 1 (of_bool (bit k 1)) OR push_bit 2 (of_bool (bit k 2))
     OR push_bit 3 (of_bool (bit k 3)) OR 32 OR push_bit 6 (of_bool (bit k 6))
     OR push_bit 7 (of_bool (bit k 7)) = (k AND 207) OR (32::int)"
proof (rule bit_eqI)
  fix m
  have hi: "8 \<le> m \<Longrightarrow> \<not> bit k m" using assms bit_byte [of k m] by auto
  consider "m = 0" | "m = 1" | "m = 2" | "m = 3" | "m = 4" | "m = 5" | "m = 6" | "m = 7"
    | "8 \<le> m"
    by linarith
  then show "bit (of_bool (bit k 0) OR push_bit 1 (of_bool (bit k 1))
     OR push_bit 2 (of_bool (bit k 2)) OR push_bit 3 (of_bool (bit k 3)) OR (32::int)
     OR push_bit 6 (of_bool (bit k 6)) OR push_bit 7 (of_bool (bit k 7))) m
     \<longleftrightarrow> bit ((k AND 207) OR (32::int)) m"
  proof cases
    case 9
    with hi show ?thesis
      by (simp add: bit_or_iff bit_and_iff bit_push_bit_iff bit_of_bool_iff bit_207 bit_32
          bit_pow2_numerals)
  qed (simp_all add: bit_or_iff bit_and_iff bit_push_bit_iff bit_of_bool_iff bit_207 bit_32
      bit_pow2_numerals)
qed

text \<open>
  C6. For every byte \<open>k\<close> in 0..255 and every CPU state, \<^verbatim>\<open>setFlags(k)\<close> followed by
  \<^verbatim>\<open>getFlags()\<close> yields \<^verbatim>\<open>(k & $CF) | $20\<close>: bits 0, 1, 2, 3, 6 and 7 of \<open>k\<close> come back,
  bit 4 (B) reads as 0 and bit 5 (U) reads as 1.
\<close>

theorem setFlags_getFlags_roundtrip:
  assumes "0 \<le> k" "k \<le> 255"
  shows "getFlags (setFlags k s) = (k AND 207) OR 32
    \<and> bit (getFlags (setFlags k s)) 0 = bit k 0 \<and> bit (getFlags (setFlags k s)) 1 = bit k 1
    \<and> bit (getFlags (setFlags k s)) 2 = bit k 2 \<and> bit (getFlags (setFlags k s)) 3 = bit k 3
    \<and> bit (getFlags (setFlags k s)) 6 = bit k 6 \<and> bit (getFlags (setFlags k s)) 7 = bit k 7
    \<and> \<not> bit (getFlags (setFlags k s)) 4 \<and> bit (getFlags (setFlags k s)) 5"
proof -
  have "getFlags (setFlags k s) = of_bool (bit k 0) OR push_bit 1 (of_bool (bit k 1))
     OR push_bit 2 (of_bool (bit k 2)) OR push_bit 3 (of_bool (bit k 3)) OR 32
     OR push_bit 6 (of_bool (bit k 6)) OR push_bit 7 (of_bool (bit k 7))"
    by (subst getFlags_or) (simp_all add: setFlags_fields)
  with packed_bits [OF assms] have eq: "getFlags (setFlags k s) = (k AND 207) OR 32"
    by simp
  show ?thesis
    unfolding eq by (simp add: bit_or_iff bit_and_iff bit_207 bit_32)
qed

theorem setFlags_getFlags_roundtrip_witness:
  "(0::int) \<le> 255 \<and> (255::int) \<le> 255
    \<and> getFlags (setFlags 255 (new_CPU ())) = 239
    \<and> \<not> bit (getFlags (setFlags 255 (new_CPU ()))) 4
    \<and> bit (getFlags (setFlags 255 (new_CPU ()))) 5"
  using setFlags_getFlags_roundtrip [of 255 "new_CPU ()"] by simp

lemma pushed_flags:
  assumes "flag_c s \<in> {0,1}" "flag_z s \<in> {0,1}" "flag_i s \<in> {0,1}" "flag_d s \<in> {0,1}"
    "flag_v s \<in> {0,1}" "flag_n s \<in> {0,1}"
  shows "js_and (getFlags s) (js_not 16) = flag_c s + 2 * flag_z s + 4 * flag_i s
    + 8 * flag_d s + 32 + 64 * flag_v s + 128 * flag_n s"
  using assms unfolding getFlags_def Let_def js_or_def js_shl_def js_and_def js_not_def to_int32_def
  by auto

lemma packed_flags_bits:
  assumes "c \<in> {0,1::int}" "z \<in> {0,1::int}" "i \<in> {0,1::int}" "d \<in> {0,1::int}"
    "v \<in> {0,1::int}" "n \<in> {0,1::int}"
  shows "0 \<le> c + 2 * z + 4 * i + 8 * d + 32 + 64 * v + 128 * n"
    "c + 2 * z + 4 * i + 8 * d + 32 + 64 * v + 128 * n \<le> 255"
    "\<not> bit (c + 2 * z + 4 * i + 8 * d + 32 + 64 * v + 128 * n) 4"
    "bit (c + 2 * z + 4 * i + 8 * d + 32 + 64 * v + 128 * n) 5"
  using assms by auto

lemma getFlags_setFlags_36: "getFlags (setFlags 36 s) = 36"
  by (subst getFlags_or) (simp_all add: setFlags_fields)

section \<open>DMA stall\<close>

text \<open>
  C4. For every CPU state (the cycle counter counts up from 0, so it is not negative), one
  call of \<^verbatim>\<open>stall\<close> adds exactly 513 to the stall counter when \<open>cycles\<close> is even and
  exactly 514 when it is odd, and changes nothing else of the CPU.
\<close>

theorem stall_adds_513_or_514:
  assumes "0 \<le> cycles s"
  shows "stall s = s\<lparr>stallCounter := stallCounter s + (if even (cycles s) then 513 else 514)\<rparr>"
  using assms by (auto simp add: stall_def js_rem_2 odd_iff_mod_2_eq_one)

theorem stall_adds_513_or_514_witness:
  "0 \<le> cycles ((new_CPU ())\<lparr>cycles := 100\<rparr>)
   \<and> stall ((new_CPU ())\<lparr>cycles := 100\<rparr>) = (new_CPU ())\<lparr>cycles := 100, stallCounter := 513\<rparr>
   \<and> 0 \<le> cycles ((new_CPU ())\<lparr>cycles := 101\<rparr>)
   \<and> stall ((new_CPU ())\<lparr>cycles := 101\<rparr>) = (new_CPU ())\<lparr>cycles := 101, stallCounter := 514\<rparr>"
  using stall_adds_513_or_514 [of "(new_CPU ())\<lparr>cycles := 100\<rparr>"]
    stall_adds_513_or_514 [of "(new_CPU ())\<lparr>cycles := 101\<rparr>"]
  by (simp add: new_CPU_def)

section \<open>The stack pointer\<close>

lemma sp_stackPush8: "sp (stackPush8 val s) = (sp s - 1) mod 256"
  by (simp add: stackPush8_def memory_stack_set_def js_and_255 Let_def)

lemma sp_fold_stackPush8:
  "vs \<noteq> [] \<Longrightarrow> sp (fold stackPush8 vs s) = (sp s - int (length vs)) mod 256"
proof (induction vs arbitrary: s)
  case Nil then show ?case by simp
next
  case (Cons w ws)
  show ?case
  proof (cases "ws = []")
    case True then show ?thesis by (simp add: sp_stackPush8)
  next
    case False
    from Cons.IH[OF False, of "stackPush8 w s"] show ?thesis
      by (simp add: sp_stackPush8 mod_diff_left_eq algebra_simps)
  qed
qed

text \<open>
  C7, as stated: 257 consecutive \<^verbatim>\<open>stackPush8\<close> return \<open>sp\<close> to its original value. They do
  not: each push lowers \<open>sp\<close> by one modulo 256, so from \<^verbatim>\<open>$FD\<close> 257 pushes end at \<^verbatim>\<open>$FC\<close>.
\<close>

theorem push_257_counterexample:
  "sp (fold stackPush8 (replicate 257 0) ((new_CPU ())\<lparr>sp := 253\<rparr>)) \<noteq> sp ((new_CPU ())\<lparr>sp := 253\<rparr>)"
proof -
  have "replicate 257 (0::int) \<noteq> []" by simp
  from sp_fold_stackPush8 [OF this]
  have "sp (fold stackPush8 (replicate 257 0) ((new_CPU ())\<lparr>sp := 253\<rparr>))
    = (sp ((new_CPU ())\<lparr>sp := 253\<rparr>) - int (length (replicate 257 (0::int)))) mod 256" .
  also have "\<dots> = 252" by simp
  finally have a: "sp (fold stackPush8 (replicate 257 0) ((new_CPU ())\<lparr>sp := 253\<rparr>)) = 252" .
  have b: "sp ((new_CPU ())\<lparr>sp := 253\<rparr>) = 253" by simp
  show ?thesis unfolding a b by simp
qed

text \<open>
  C7, amended. For every starting stack pointer in 0..255, 256 consecutive \<^verbatim>\<open>stackPush8\<close>,
  of any values, return \<open>sp\<close> to its original value (it wraps in the low byte); 257 pushes
  leave it one below the original value, modulo 256.
\<close>

theorem push_256_restores_sp:
  assumes "0 \<le> sp s" "sp s \<le> 255" "length vs = 256" "length ws = 257"
  shows "sp (fold stackPush8 vs s) = sp s \<and> sp (fold stackPush8 ws s) = (sp s - 1) mod 256"
proof -
  have "length vs \<noteq> 0" "length ws \<noteq> 0"
    unfolding assms(3,4) by simp_all
  then have ne: "vs \<noteq> []" "ws \<noteq> []"
    by (simp_all only: length_0_conv not_False_eq_True)
  have "sp (fold stackPush8 vs s) = (sp s - int 256) mod 256"
    using sp_fold_stackPush8 [OF ne(1), of s] unfolding assms(3) .
  moreover have "sp (fold stackPush8 ws s) = (sp s - int 257) mod 256"
    using sp_fold_stackPush8 [OF ne(2), of s] unfolding assms(4) .
  moreover have "(sp s - int 256) mod 256 = sp s" using assms(1,2) by simp
  moreover have "(sp s - int 257) mod 256 = (sp s - 1) mod 256"
  proof -
    have "(sp s - 1 - 256) mod 256 = (sp s - 1) mod 256" by (rule minus_mod_self2)
    moreover have "sp s - int 257 = sp s - 1 - 256" by simp
    ultimately show ?thesis by (simp only:)
  qed
  ultimately show ?thesis by (simp only:)
qed

theorem push_256_restores_sp_witness:
  "0 \<le> sp ((new_CPU ())\<lparr>sp := 253\<rparr>) \<and> sp ((new_CPU ())\<lparr>sp := 253\<rparr>) \<le> 255
   \<and> length (replicate 256 (0::int)) = 256 \<and> length (replicate 257 (0::int)) = 257
   \<and> sp (fold stackPush8 (replicate 256 0) ((new_CPU ())\<lparr>sp := 253\<rparr>)) = 253
   \<and> sp (fold stackPush8 (replicate 257 0) ((new_CPU ())\<lparr>sp := 253\<rparr>)) = 252"
proof -
  have h: "0 \<le> sp ((new_CPU ())\<lparr>sp := 253\<rparr>)" "sp ((new_CPU ())\<lparr>sp := 253\<rparr>) \<le> 255"
    "length (replicate 256 (0::int)) = 256" "length (replicate 257 (0::int)) = 257"
    by simp_all
  have e: "sp ((new_CPU ())\<lparr>sp := 253\<rparr>) = 253" "(253 - 1) mod 256 = (252::int)"
    by simp_all
  from push_256_restores_sp [OF h]
  have "sp (fold stackPush8 (replicate 256 0) ((new_CPU ())\<lparr>sp := 253\<rparr>)) = 253
   \<and> sp (fold stackPush8 (replicate 257 0) ((new_CPU ())\<lparr>sp := 253\<rparr>)) = 252"
    unfolding e .
  with h show ?thesis by blast
qed

lemma stackPush8_eq:
  "0 \<le> sp s \<Longrightarrow> sp s \<le> 255 \<Longrightarrow>
     stackPush8 val s = s\<lparr>ram := (ram s)(256 + sp s := word_of_int val), sp := (sp s - 1) mod 256\<rparr>"
  by (simp add: stackPush8_def memory_stack_set_def js_and_255 Let_def)

lemma stackPull8_eq:
  "stackPull8 s = (uint (ram s (256 + (sp s + 1) mod 256)), s\<lparr>sp := (sp s + 1) mod 256\<rparr>)"
  by (simp add: stackPull8_def memory_stack_get_def js_and_255 Let_def)

lemma stackPush16_eq:
  assumes "0 \<le> val" "val \<le> 65535" "0 \<le> sp s" "sp s \<le> 255"
  shows "stackPush16 val s
    = s\<lparr>ram := (ram s)(256 + sp s := word_of_int (val div 256),
                         256 + (sp s - 1) mod 256 := word_of_int (val mod 256)),
         sp := (sp s - 2) mod 256\<rparr>"
proof -
  have r: "0 \<le> (sp s - 1) mod 256" "(sp s - 1) mod 256 \<le> 255" by simp_all
  have "((sp s - 1) mod 256 - 1) mod 256 = (sp s - 2) mod 256"
    by (simp add: mod_diff_left_eq)
  then show ?thesis
    unfolding stackPush16_def using assms r
    by (simp add: stackPush8_eq js_shr_8 js_and_255)
qed

text \<open>
  C8, as stated, has the low byte at the lower address for every CPU state. With \<open>sp = 0\<close>
  the push wraps: \<^verbatim>\<open>stackPush16($1234)\<close> on a new CPU stores the high byte \<^verbatim>\<open>$12\<close> at
  \<^verbatim>\<open>$0100\<close> and the low byte \<^verbatim>\<open>$34\<close> at \<^verbatim>\<open>$01FF\<close>, the higher address.
\<close>

theorem push16_layout_counterexample:
  "sp (new_CPU ()) = 0
   \<and> memory_read8 256 (stackPush16 4660 (new_CPU ())) = 18
   \<and> memory_read8 511 (stackPush16 4660 (new_CPU ())) = 52
   \<and> memory_read8 255 (stackPush16 4660 (new_CPU ())) = 0
   \<and> \<not> (511::int) < 256"
  by (simp add: stackPush16_def stackPush8_def memory_stack_set_def memory_read8_def
      js_and_def js_shr_def to_int32_def new_CPU_def Let_def)

text \<open>
  C8, amended. For every 16-bit value and every CPU state with \<open>sp\<close> in 0..255,
  \<^verbatim>\<open>stackPush16\<close> followed by \<^verbatim>\<open>stackPull16\<close> returns the value and restores \<open>sp\<close>, and
  nothing else differs from the state after the push. The high byte is at \<^verbatim>\<open>$0100 + sp\<close> and
  the low byte one address below it, except that with \<open>sp = 0\<close> the low byte is at
  \<^verbatim>\<open>$01FF\<close>.
\<close>

theorem push16_pull16_roundtrip:
  assumes "0 \<le> val" "val \<le> 65535" "0 \<le> sp s" "sp s \<le> 255"
  shows "stackPull16 (stackPush16 val s) = (val, (stackPush16 val s)\<lparr>sp := sp s\<rparr>)
    \<and> memory_read8 (256 + sp s) (stackPush16 val s) = val div 256
    \<and> memory_read8 (if sp s = 0 then 511 else 255 + sp s) (stackPush16 val s) = val mod 256"
proof -
  define lo where "lo = (sp s - 1) mod 256"
  have lo5: "lo = (if sp s = 0 then 255 else sp s - 1)"
  proof (cases "sp s = 0")
    case True
    then show ?thesis by (simp add: lo_def)
  next
    case False
    with assms(3,4) have "0 \<le> sp s - 1" "sp s - 1 < 256" by linarith+
    then have "(sp s - 1) mod 256 = sp s - 1" by (rule mod_pos_pos_trivial)
    with False show ?thesis by (simp add: lo_def)
  qed
  have lo: "0 \<le> lo" "lo \<le> 255" "lo \<noteq> sp s" "(lo + 1) mod 256 = sp s"
    using assms(3,4) unfolding lo5 by auto
  have hi: "0 \<le> val div 256" "val div 256 \<le> 255" using assms by simp_all
  have p1: "stackPush8 (js_shr val 8) s
      = s\<lparr>ram := (ram s)(256 + sp s := word_of_int (val div 256)), sp := lo\<rparr>"
    using assms by (simp add: stackPush8_eq js_shr_8 lo_def)
  have p2: "stackPush16 val s
      = s\<lparr>ram := (ram s)(256 + sp s := word_of_int (val div 256), 256 + lo := word_of_int (val mod 256)),
           sp := (lo - 1) mod 256\<rparr>"
    unfolding stackPush16_def p1 using lo by (simp add: stackPush8_eq js_and_255)
  have sp_up: "((lo - 1) mod 256 + 1) mod 256 = lo"
    using lo(1,2) by (simp add: mod_add_left_eq)
  have cells: "uint (word_of_int (val mod 256) :: 8 word) = val mod 256"
    "uint (word_of_int (val div 256) :: 8 word) = val div 256"
    using hi by (simp_all add: uint_byte)
  have pull: "stackPull16 (stackPush16 val s)
      = (js_or (val mod 256) (js_shl (val div 256) 8), (stackPush16 val s)\<lparr>sp := sp s\<rparr>)"
    unfolding p2 using lo(3,4) 
    by (simp add: stackPull16_def stackPull8_eq sp_up cells)
  have rd: "memory_read8 (256 + sp s) (stackPush16 val s) = val div 256"
    "memory_read8 (256 + lo) (stackPush16 val s) = val mod 256"
    unfolding p2 using lo(1,2,3) assms(3,4) by (simp_all add: memory_read8_def cells)
  have "256 + lo = (if sp s = 0 then 511 else 255 + sp s)" using lo5 by simp
  with rd pull show ?thesis by (simp add: js_or_lo_hi [OF assms(1,2)])
qed

theorem push16_pull16_roundtrip_witness:
  "(0::int) \<le> 4660 \<and> (4660::int) \<le> 65535
   \<and> 0 \<le> sp ((new_CPU ())\<lparr>sp := 253\<rparr>) \<and> sp ((new_CPU ())\<lparr>sp := 253\<rparr>) \<le> 255
   \<and> fst (stackPull16 (stackPush16 4660 ((new_CPU ())\<lparr>sp := 253\<rparr>))) = 4660
   \<and> sp (snd (stackPull16 (stackPush16 4660 ((new_CPU ())\<lparr>sp := 253\<rparr>)))) = 253
   \<and> memory_read8 509 (stackPush16 4660 ((new_CPU ())\<lparr>sp := 253\<rparr>)) = 18
   \<and> memory_read8 508 (stackPush16 4660 ((new_CPU ())\<lparr>sp := 253\<rparr>)) = 52"
  using push16_pull16_roundtrip [of 4660 "(new_CPU ())\<lparr>sp := 253\<rparr>"]
  by simp

section \<open>The bus\<close>

lemma peer_read_fields:
  "peer_read f s = Inr (val, s') \<Longrightarrow> s' = s\<lparr>peers := peers s'\<rparr>"
  by (auto simp add: peer_read_def split: sum.splits prod.splits)

lemma read8_fields:
  "read8 h addr s = Inr (val, s') \<Longrightarrow> s' = s\<lparr>peers := peers s', console := console s'\<rparr>"
  unfolding read8_def
  by (auto split: if_splits dest!: peer_read_fields)

lemma read16_fields:
  assumes "read16 h addr s = Inr (val, s')"
  shows "s' = s\<lparr>peers := peers s', console := console s'\<rparr>"
proof -
  from assms obtain hi s1 lo where
    a: "read8 h (addr + 1) s = Inr (hi, s1)" and b: "read8 h addr s1 = Inr (lo, s')"
    by (auto simp add: read16_def split: sum.splits prod.splits)
  from read8_fields [OF a] obtain p1 c1 where s1: "s1 = s\<lparr>peers := p1, console := c1\<rparr>"
    by blast
  from read8_fields [OF b] obtain p2 c2 where s2: "s' = s1\<lparr>peers := p2, console := c2\<rparr>"
    by blast
  show ?thesis unfolding s2 s1 by simp
qed

lemma read8_mapper: "24576 \<le> addr \<Longrightarrow> read8 h addr s = peer_read (mapper_read8 h addr) s"
  by (simp add: read8_def)

lemma read16_mapper_frame:
  assumes "24576 \<le> addr" "peers t = peers s" "read16 h addr s = Inr (val, s1)"
  shows "read16 h addr t = Inr (val, t\<lparr>peers := peers s1\<rparr>)"
  using assms
  by (auto simp add: read16_def read8_mapper peer_read_def split: sum.splits prod.splits)

text \<open>
  C9. For every address in the reserved I/O windows, \<^verbatim>\<open>$4017\<close>, \<^verbatim>\<open>$4000\<close> to \<^verbatim>\<open>$4013\<close> and
  \<^verbatim>\<open>$4018\<close> to \<^verbatim>\<open>$5FFF\<close>, \<^verbatim>\<open>read8\<close> returns 0 and \<^verbatim>\<open>write8\<close> is dropped: the state after the
  write is the state before it. The read changes no CPU, RAM or peer state either; outside
  \<^verbatim>\<open>$4017\<close> it logs a line on the host console.
\<close>

theorem reserved_window_read_write:
  assumes "addr = 16407 \<or> (16384 \<le> addr \<and> addr \<le> 16403) \<or> (16408 \<le> addr \<and> addr \<le> 24575)"
  shows "read8 h addr s
      = Inr (0, if addr = 16407 then s else s\<lparr>console := console s @ [''I/O REGISTERS'']\<rparr>)
    \<and> write8 h addr val s = Inr s"
  using assms by (auto simp add: read8_def write8_def)

theorem reserved_window_read_write_witness:
  "((16384::int) = 16407 \<or> ((16384::int) \<le> 16384 \<and> (16384::int) \<le> 16403)
      \<or> ((16408::int) \<le> 16384 \<and> (16384::int) \<le> 24575))
   \<and> read8 rom_hw 16384 (new_CPU ()) = Inr (0, (new_CPU ())\<lparr>console := [''I/O REGISTERS'']\<rparr>)
   \<and> write8 rom_hw 16384 255 (new_CPU ()) = Inr (new_CPU ())
   \<and> read8 rom_hw 16407 (new_CPU ()) = Inr (0, new_CPU ())
   \<and> write8 rom_hw 16407 255 (new_CPU ()) = Inr (new_CPU ())"
  using reserved_window_read_write [of 16384 rom_hw "new_CPU ()" 255]
    reserved_window_read_write [of 16407 rom_hw "new_CPU ()" 255]
  by (simp add: new_CPU_def)

lemma indirect_addr2:
  assumes "0 \<le> addr" "addr \<le> 65535"
  shows "js_or (js_and addr 65280) (js_and (js_and addr 255 + 1) 255)
    = (addr AND 65280) OR ((addr + 1) AND 255)"
proof -
  have a: "js_and addr 65280 = addr AND 65280"
    using assms by (simp add: js_and_id)
  have b: "js_and (js_and addr 255 + 1) 255 = (addr + 1) AND 255"
    by (simp add: js_and_255 and_255 mod_add_left_eq)
  have c: "0 \<le> addr AND 65280" "addr AND 65280 \<le> 65280"
    using assms by simp_all
  have d: "0 \<le> (addr + 1) AND 255" "(addr + 1) AND 255 \<le> 255"
    by simp_all
  show ?thesis
    unfolding a b by (rule js_or_id) (use c d in linarith)+
qed

text \<open>
  C3. For every 16-bit address, \<^verbatim>\<open>read16indirect\<close> reads the low byte at \<open>addr\<close> and then the
  high byte at \<^verbatim>\<open>(addr & $FF00) | ((addr + 1) & $FF)\<close>. When the low byte of \<open>addr\<close> is
  \<^verbatim>\<open>$FF\<close>, that second address is \<open>addr - $FF\<close>, the start of the same page, and not
  \<open>addr + 1\<close>.
\<close>

theorem read16indirect_page_wrap:
  assumes "0 \<le> addr" "addr \<le> 65535"
  shows "read16indirect h addr s =
      (case read8 h addr s of
         Inl e \<Rightarrow> Inl e
       | Inr (lo, s1) \<Rightarrow>
           (case read8 h ((addr AND 65280) OR ((addr + 1) AND 255)) s1 of
              Inl e \<Rightarrow> Inl e
            | Inr (hi, s2) \<Rightarrow> Inr (js_or (js_shl hi 8) lo, s2)))
    \<and> (addr AND 255 = 255 \<longrightarrow>
          (addr AND 65280) OR ((addr + 1) AND 255) = addr - 255
          \<and> (addr AND 65280) OR ((addr + 1) AND 255) \<noteq> addr + 1)"
proof -
  have "addr AND 255 = 255 \<Longrightarrow> (addr AND 65280) OR ((addr + 1) AND 255) = addr - 255"
  proof -
    assume "addr AND 255 = 255"
    then have m: "addr mod 256 = 255" by (simp add: and_255)
    then have "(addr + 1) mod 256 = 0" by presburger
    moreover have "addr div 256 < 256" "0 \<le> addr div 256" using assms by simp_all
    then have "(addr div 256) mod 256 = addr div 256" by simp
    moreover have "256 * (addr div 256) = addr - addr mod 256"
      by (simp add: minus_mod_eq_mult_div)
    ultimately show ?thesis using m by (simp add: and_255 and_65280)
  qed
  then show ?thesis
    by (simp add: read16indirect_def Let_def indirect_addr2 [OF assms])
qed

theorem read16indirect_page_wrap_witness:
  "(0::int) \<le> 767 \<and> (767::int) \<le> 65535 \<and> (767::int) AND 255 = 255
   \<and> read16indirect rom_hw 767
        ((new_CPU ())\<lparr>ram := (\<lambda>_. 0)(767 := 128, 512 := 80, 768 := 255)\<rparr>)
      = Inr (20608, (new_CPU ())\<lparr>ram := (\<lambda>_. 0)(767 := 128, 512 := 80, 768 := 255)\<rparr>)
   \<and> ((767::int) AND 65280) OR ((767 + 1) AND 255) = 512"
  using read16indirect_page_wrap
    [of 767 rom_hw "(new_CPU ())\<lparr>ram := (\<lambda>_. 0)(767 := 128, 512 := 80, 768 := 255)\<rparr>"]
  by (simp add: read8_def memory_read8_def js_or_def js_shl_def to_int32_def)

section \<open>Reset\<close>

text \<open>
  C5. For every CPU state, when the read of the reset vector returns (it goes to the
  mapper, which may throw), \<^verbatim>\<open>reset\<close> returns, and in the state it leaves \<open>sp\<close> is
  \<^verbatim>\<open>$FD\<close>, the I flag is 1, \<^verbatim>\<open>getFlags\<close> gives \<^verbatim>\<open>$24\<close>, \<open>pc\<close> is the value
  \<^verbatim>\<open>read16($FFFC)\<close> returned, no interrupt is pending and the stall counter is 0.
\<close>

theorem reset_state:
  assumes "read16 h 65532 s = Inr (vec, s1)"
  shows "\<exists>s'. reset h s = Inr s' \<and> sp s' = 253 \<and> flag_i s' = 1 \<and> getFlags s' = 36
    \<and> pc s' = vec \<and> interrupt s' = None \<and> stallCounter s' = 0"
proof -
  let ?s0 = "s\<lparr>cycles := 0, reg_a := 0, reg_x := 0, reg_y := 0, interrupt := None,
    stallCounter := 0\<rparr>"
  have "read16 h 65532 ?s0 = Inr (vec, ?s0\<lparr>peers := peers s1\<rparr>)"
    by (rule read16_mapper_frame [OF _ _ assms]) simp_all
  then have "reset h s = Inr (setFlags 36 (?s0\<lparr>peers := peers s1, pc := vec, sp := 253\<rparr>))"
    by (simp add: reset_def Let_def)
  then show ?thesis
    by (simp add: getFlags_setFlags_36 setFlags_fields) (simp add: setFlags_def)
qed

theorem reset_state_witness:
  "read16 rom_hw 65532 (new_CPU ()) = Inr (4660, new_CPU ())
   \<and> (\<exists>s'. reset rom_hw (new_CPU ()) = Inr s' \<and> sp s' = 253 \<and> flag_i s' = 1
        \<and> getFlags s' = 36 \<and> pc s' = 4660 \<and> interrupt s' = None \<and> stallCounter s' = 0)"
proof -
  have r: "read16 rom_hw 65532 (new_CPU ()) = Inr (4660, new_CPU ())"
    by (simp add: read16_def read8_def peer_read_def rom_hw_def js_or_def js_shl_def
        to_int32_def new_CPU_def)
  from reset_state [OF r] r show ?thesis by blast
qed

section \<open>tick: the stalled CPU and the interrupt latch\<close>

lemma tick_stalled:
  "0 < stallCounter s \<Longrightarrow>
     tick h s = Inr (0, s\<lparr>branch_b := 0, stallCounter := stallCounter s - 1\<rparr>)"
  by (simp add: tick_def Let_def)

text \<open>
  C1 says that \<^verbatim>\<open>tick\<close> on a stalled CPU returns 1. The comment in the source says so too
  (``Should return 1''), and the code returns 0: after a DMA stall at \<open>cycles = 100\<close> the stall
  counter is 513, and the next \<^verbatim>\<open>tick\<close> lowers it to 512, changes no register, flag or
  cycle count, and returns 0.
\<close>

theorem tick_stalled_returns_0:
  "tick rom_hw ((new_CPU ())\<lparr>cycles := 100, stallCounter := 513\<rparr>)
     = Inr (0, (new_CPU ())\<lparr>cycles := 100, stallCounter := 512\<rparr>)"
  by (simp add: tick_stalled new_CPU_def)

text \<open>
  C2. For every CPU state with stall counter 0 and an NMI pending, with \<open>sp\<close> a byte, \<open>pc\<close>
  a 16-bit value and every flag 0 or 1, when the read of the NMI vector returns, \<^verbatim>\<open>tick\<close>
  returns 7 and leaves: the high byte of \<open>pc\<close> at \<^verbatim>\<open>$0100 + sp\<close>, its low byte one stack
  slot below, the packed flags one slot further below with bit 4 (B) clear and bit 5 (U)
  set, \<open>sp\<close> three slots down, the I flag 1, \<open>pc\<close> the value \<^verbatim>\<open>read16($FFFA)\<close> returned,
  \<open>cycles\<close> raised by exactly 7 and the interrupt latch cleared.
\<close>

theorem tick_services_nmi:
  assumes st: "stallCounter s = 0" and nmi: "interrupt s = Some NMI"
    and sp: "0 \<le> sp s" "sp s \<le> 255" and pc: "0 \<le> pc s" "pc s \<le> 65535"
    and fl: "flag_c s \<in> {0,1}" "flag_z s \<in> {0,1}" "flag_i s \<in> {0,1}" "flag_d s \<in> {0,1}"
      "flag_v s \<in> {0,1}" "flag_n s \<in> {0,1}"
    and vec: "read16 h 65530 s = Inr (vec, s1)"
  shows "\<exists>s'. tick h s = Inr (7, s')
    \<and> memory_read8 (256 + sp s) s' = pc s div 256
    \<and> memory_read8 (256 + (sp s - 1) mod 256) s' = pc s mod 256
    \<and> memory_read8 (256 + (sp s - 2) mod 256) s'
        = flag_c s + 2 * flag_z s + 4 * flag_i s + 8 * flag_d s + 32 + 64 * flag_v s
          + 128 * flag_n s
    \<and> \<not> bit (memory_read8 (256 + (sp s - 2) mod 256) s') 4
    \<and> bit (memory_read8 (256 + (sp s - 2) mod 256) s') 5
    \<and> sp s' = (sp s - 3) mod 256
    \<and> flag_i s' = 1 \<and> pc s' = vec \<and> cycles s' = cycles s + 7 \<and> interrupt s' = None"
proof -
  define F where "F = flag_c s + 2 * flag_z s + 4 * flag_i s + 8 * flag_d s + 32
    + 64 * flag_v s + 128 * flag_n s"
  define s0 where "s0 = s\<lparr>branch_b := 0\<rparr>"
  define p2 where "p2 = stackPush16 (pc s) s0"
  define p3 where "p3 = stackPush8 (js_and (getFlags p2) (js_not 16)) p2"
  have Fb: "0 \<le> F" "F \<le> 255" "\<not> bit F 4" "bit F 5"
    unfolding F_def using fl by (rule packed_flags_bits)+
  have p2: "p2 = s0\<lparr>ram := (ram s)(256 + sp s := word_of_int (pc s div 256),
                         256 + (sp s - 1) mod 256 := word_of_int (pc s mod 256)),
         sp := (sp s - 2) mod 256\<rparr>"
    unfolding p2_def using stackPush16_eq [of "pc s" s0] sp pc by (simp add: s0_def)
  have "js_and (getFlags p2) (js_not 16) = F"
    unfolding F_def using pushed_flags [of p2] fl by (simp add: p2 s0_def)
  then have p3: "p3 = p2\<lparr>ram := (ram p2)(256 + (sp s - 2) mod 256 := word_of_int F),
      sp := (sp s - 3) mod 256\<rparr>"
    unfolding p3_def using stackPush8_eq [of p2 F]
    by (simp add: p2 mod_diff_left_eq)
  have "peers p3 = peers s" by (simp add: p3 p2 s0_def)
  from read16_mapper_frame [OF _ this vec]
  have rd: "read16 h 65530 p3 = Inr (vec, p3\<lparr>peers := peers s1\<rparr>)" by simp
  define s' where "s' = p3\<lparr>peers := peers s1, pc := vec, flag_i := 1, cycles := cycles p3 + 7,
    interrupt := None\<rparr>"
  have t: "tick h s = Inr (7, s')"
    using st nmi rd
    by (simp add: tick_def Let_def s'_def p3_def p2_def s0_def)
  have ram: "ram s' = (ram s)(256 + sp s := word_of_int (pc s div 256),
      256 + (sp s - 1) mod 256 := word_of_int (pc s mod 256),
      256 + (sp s - 2) mod 256 := word_of_int F)"
    by (simp add: s'_def p3 p2 s0_def)
  have idx: "(256 + sp s) mod 2048 = 256 + sp s"
    "(256 + (sp s - 1) mod 256) mod 2048 = 256 + (sp s - 1) mod 256"
    "(256 + (sp s - 2) mod 256) mod 2048 = 256 + (sp s - 2) mod 256"
    using sp by (simp_all add: sp_down)
  have ne: "(sp s - 1) mod 256 \<noteq> sp s" "(sp s - 2) mod 256 \<noteq> sp s"
    "(sp s - 2) mod 256 \<noteq> (sp s - 1) mod 256"
    using sp by (auto simp add: sp_down)
  have pcb: "0 \<le> pc s div 256" "pc s div 256 \<le> 255" "0 \<le> pc s mod 256" "pc s mod 256 \<le> 255"
    using pc by simp_all
  have m1: "memory_read8 (256 + sp s) s' = pc s div 256"
    unfolding memory_read8_def idx ram using ne pcb by (simp add: uint_byte)
  have m2: "memory_read8 (256 + (sp s - 1) mod 256) s' = pc s mod 256"
    unfolding memory_read8_def idx ram using ne pcb by (simp add: uint_byte)
  have m3: "memory_read8 (256 + (sp s - 2) mod 256) s' = F"
    unfolding memory_read8_def idx ram using ne Fb by (simp add: uint_byte)
  have rest: "sp s' = (sp s - 3) mod 256" "flag_i s' = 1" "pc s' = vec"
    "cycles s' = cycles s + 7" "interrupt s' = None"
    by (simp_all add: s'_def p3 p2 s0_def)
  from m3 Fb(3,4)
  have b45: "\<not> bit (memory_read8 (256 + (sp s - 2) mod 256) s') 4"
    "bit (memory_read8 (256 + (sp s - 2) mod 256) s') 5"
    by simp_all
  from t m1 m2 m3 [unfolded F_def] b45 rest
  show ?thesis by - (rule exI [of _ s'], (intro conjI; assumption))
qed

theorem tick_services_nmi_witness:
  "stallCounter cpu_at_nmi = 0 \<and> interrupt cpu_at_nmi = Some NMI
   \<and> sp cpu_at_nmi = 253 \<and> pc cpu_at_nmi = 32768
   \<and> flag_c cpu_at_nmi = 0 \<and> flag_z cpu_at_nmi = 0 \<and> flag_i cpu_at_nmi = 1
   \<and> flag_d cpu_at_nmi = 0 \<and> flag_v cpu_at_nmi = 0 \<and> flag_n cpu_at_nmi = 1
   \<and> read16 rom_hw 65530 cpu_at_nmi = Inr (36864, cpu_at_nmi)
   \<and> (\<exists>s'. tick rom_hw cpu_at_nmi = Inr (7, s')
        \<and> memory_read8 509 s' = 128 \<and> memory_read8 508 s' = 0 \<and> memory_read8 507 s' = 164
        \<and> \<not> bit (memory_read8 507 s') 4 \<and> bit (memory_read8 507 s') 5
        \<and> sp s' = 250 \<and> flag_i s' = 1 \<and> pc s' = 36864 \<and> cycles s' = 7
        \<and> interrupt s' = None)"
proof -
  have f: "stallCounter cpu_at_nmi = 0" "interrupt cpu_at_nmi = Some NMI"
    "sp cpu_at_nmi = 253" "pc cpu_at_nmi = 32768"
    "flag_c cpu_at_nmi = 0" "flag_z cpu_at_nmi = 0" "flag_i cpu_at_nmi = 1"
    "flag_d cpu_at_nmi = 0" "flag_v cpu_at_nmi = 0" "flag_n cpu_at_nmi = 1"
    "cycles cpu_at_nmi = 0"
    by (simp_all add: cpu_at_nmi_def new_CPU_def)
  have r: "read16 rom_hw 65530 cpu_at_nmi = Inr (36864, cpu_at_nmi)"
    by (simp add: read16_def read8_def peer_read_def rom_hw_def js_or_def js_shl_def
        to_int32_def)
  from tick_services_nmi [of cpu_at_nmi rom_hw 36864 cpu_at_nmi, unfolded f, OF _ _ _ _ _ _ _ _ _ _ _ _ r]
  have "\<exists>s'. tick rom_hw cpu_at_nmi = Inr (7, s')
        \<and> memory_read8 509 s' = 128 \<and> memory_read8 508 s' = 0 \<and> memory_read8 507 s' = 164
        \<and> \<not> bit (memory_read8 507 s') 4 \<and> bit (memory_read8 507 s') 5
        \<and> sp s' = 250 \<and> flag_i s' = 1 \<and> pc s' = 36864 \<and> cycles s' = 7
        \<and> interrupt s' = None"
    by simp
  with f r show ?thesis by simp
qed

text \<open>
  C10. For every CPU state with stall counter 0 and a pending interrupt other than NMI,
  \<^verbatim>\<open>tick\<close> clears the latch and returns 7; nothing else changes but the branch counter
  \<^verbatim>\<open>b\<close>, which every \<^verbatim>\<open>tick\<close> resets: \<open>pc\<close>, \<open>sp\<close>, the registers, the flags and \<open>cycles\<close>
  stay as they are, so the 7 returned is not the change of \<open>cycles\<close>, which is 0.
\<close>

theorem tick_drops_other_interrupt:
  assumes "stallCounter s = 0" "interrupt s = Some t" "t \<noteq> NMI"
  shows "\<exists>s'. tick h s = Inr (7, s') \<and> s' = s\<lparr>branch_b := 0, interrupt := None\<rparr>
    \<and> interrupt s' = None \<and> pc s' = pc s \<and> sp s' = sp s
    \<and> reg_a s' = reg_a s \<and> reg_x s' = reg_x s \<and> reg_y s' = reg_y s
    \<and> flag_c s' = flag_c s \<and> flag_z s' = flag_z s \<and> flag_i s' = flag_i s
    \<and> flag_d s' = flag_d s \<and> flag_v s' = flag_v s \<and> flag_n s' = flag_n s
    \<and> cycles s' = cycles s \<and> cycles s' - cycles s \<noteq> 7"
  using assms by (cases t) (simp_all add: tick_def Let_def)

theorem tick_drops_other_interrupt_witness:
  "stallCounter ((new_CPU ())\<lparr>interrupt := Some IRQ\<rparr>) = 0
   \<and> interrupt ((new_CPU ())\<lparr>interrupt := Some IRQ\<rparr>) = Some IRQ \<and> IRQ \<noteq> NMI
   \<and> tick rom_hw ((new_CPU ())\<lparr>interrupt := Some IRQ\<rparr>) = Inr (7, new_CPU ())"
  using tick_drops_other_interrupt [of "(new_CPU ())\<lparr>interrupt := Some IRQ\<rparr>" IRQ rom_hw]
  by (simp add: new_CPU_def)

end
